theory Spec2Isabelle
  imports Complex_Main "HOL-Library.Multiset"
begin

section \<open>Data model\<close>

text \<open>
  The sampler of \<^verbatim>\<open>src/Metropolis.py\<close> works on numpy arrays of floats. They are
  modelled over the reals: a vector is a list of reals, a matrix a list of rows. Inputs
  are taken well shaped (vectors of length \<open>D\<close>, a \<open>D \<times> D\<close> covariance); the theorems
  say so where they need it.
\<close>

type_synonym vec = "real list"
type_synonym mat = "real list list"

datatype error = LinAlgError | ZeroDivisionError | IndexError | ValueError

text \<open>
  The global random generator of numpy and the calls of the posterior are the effects of
  the code. The state threaded through the model holds the successive outputs of
  \<^verbatim>\<open>np.random.randn\<close> and of \<^verbatim>\<open>np.random.rand\<close>, how many of each have been
  consumed, and how often the posterior \<^verbatim>\<open>flogpost\<close> has been called.
\<close>

record world =
  randn_src :: "nat \<Rightarrow> real"
  rand_src :: "nat \<Rightarrow> real"
  n_randn :: nat
  n_rand :: nat
  n_post :: nat

definition randn :: "nat \<Rightarrow> world \<Rightarrow> vec \<times> world" where
  "randn D w =
     (map (randn_src w) [n_randn w ..< n_randn w + D], w\<lparr>n_randn := n_randn w + D\<rparr>)"


definition rand1 :: "world \<Rightarrow> real \<times> world" where
  "rand1 w = (rand_src w (n_rand w), w\<lparr>n_rand := n_rand w + 1\<rparr>)"

definition tick_post :: "world \<Rightarrow> world" where
  "tick_post w = w\<lparr>n_post := n_post w + 1\<rparr>"

section \<open>The numpy operations the sampler calls\<close>

definition vadd :: "vec \<Rightarrow> vec \<Rightarrow> vec" where
  "vadd x y = map2 (+) x y"

definition vsub :: "vec \<Rightarrow> vec \<Rightarrow> vec" where
  "vsub x y = map2 (-) x y"


definition dot :: "vec \<Rightarrow> vec \<Rightarrow> real" where
  "dot x y = sum_list (map2 (*) x y)"

text \<open>
  \<^verbatim>\<open>np.dot(z, A)\<close> for a vector \<open>z\<close> and a matrix \<open>A\<close>: entry \<open>j\<close> is
  \<open>\<Sum>i. z[i] * A[i][j]\<close>, the row vector \<open>z\<close> times \<open>A\<close>.
\<close>

definition np_dot_vm :: "vec \<Rightarrow> mat \<Rightarrow> vec" where
  "np_dot_vm z A =
     (case A of [] \<Rightarrow> []
      | r # _ \<Rightarrow> map (\<lambda>j. sum_list (map2 (\<lambda>zi row. zi * row ! j) z A)) [0..<length r])"

text \<open>The matrix times the column vector \<open>z\<close>: entry \<open>i\<close> is \<open>\<Sum>j. A[i][j] * z[j]\<close>.\<close>

definition mat_vec :: "mat \<Rightarrow> vec \<Rightarrow> vec" where
  "mat_vec A z = map (\<lambda>row. dot row z) A"

text \<open>\<^verbatim>\<open>np.clip(x, lo, hi)\<close> is \<^verbatim>\<open>minimum(maximum(x, lo), hi)\<close>, component-wise.\<close>

definition np_clip :: "vec \<Rightarrow> vec \<Rightarrow> vec \<Rightarrow> vec" where
  "np_clip x lo hi = map2 min (map2 max x lo) hi"

text \<open>
  \<^verbatim>\<open>np.linalg.cholesky\<close>: the lower-triangular factor, row by row. Entry \<open>j < i\<close> of
  row \<open>i\<close> is \<open>(A[i][j] - \<Sum>k<j. L[i][k] * L[j][k]) / L[j][j]\<close>, the diagonal entry is the
  root of \<open>A[i][i] - \<Sum>k<i. L[i][k]\<^sup>2\<close>; only the lower triangle of \<open>A\<close> is read. A pivot
  that is not positive raises \<^verbatim>\<open>LinAlgError\<close>. This is the factorisation in exact
  arithmetic. The library computes in binary64, where rounding decides a pivot that is
  exactly \<open>0\<close>: it can factor a singular matrix. What the code does when the library
  rejects a covariance is therefore stated for the library's routine, taken as given
  (\<open>MChain_with\<close> below).
\<close>

definition chol_entry :: "mat \<Rightarrow> mat \<Rightarrow> nat \<Rightarrow> nat \<Rightarrow> vec \<Rightarrow> vec" where
  "chol_entry A Ls i j r = r @ [(A ! i ! j - dot r (take j (Ls ! j))) / (Ls ! j ! j)]"

definition chol_row :: "mat \<Rightarrow> mat \<Rightarrow> nat \<Rightarrow> error + vec" where
  "chol_row A Ls i =
     (let r = fold (chol_entry A Ls i) [0..<i] [];
          d = A ! i ! i - dot r r
      in if d \<le> 0 then Inl LinAlgError
         else Inr (r @ [sqrt d] @ replicate (length A - Suc i) 0))"

definition chol_step :: "mat \<Rightarrow> nat \<Rightarrow> error + mat \<Rightarrow> error + mat" where
  "chol_step A i acc =
     (case acc of Inl e \<Rightarrow> Inl e
      | Inr Ls \<Rightarrow> (case chol_row A Ls i of Inl e \<Rightarrow> Inl e | Inr r \<Rightarrow> Inr (Ls @ [r])))"

definition cholesky :: "mat \<Rightarrow> error + mat" where
  "cholesky A = fold (chol_step A) [0..<length A] (Inr [])"

section \<open>The chain kernel \<^verbatim>\<open>MChain\<close>\<close>

text \<open>
  The posterior \<^verbatim>\<open>flogpost\<close> that \<^verbatim>\<open>MChain\<close> builds from the likelihood, the optional
  prior and \<open>beta\<close>. The evaluators are pure functions of the point, with real values.
  \<^verbatim>\<open>np.log\<close> is \<open>ln\<close> where \<open>xlb[i] < xub[i]\<close>; for \<open>xub[i] \<le> xlb[i]\<close> it returns
  \<^verbatim>\<open>-inf\<close> or \<^verbatim>\<open>nan\<close>, which no real number models, so what is said of the values of
  the score without a prior assumes \<open>xlb[i] < xub[i]\<close>.
\<close>

definition flogpost ::
  "(vec \<Rightarrow> real) \<Rightarrow> (vec \<Rightarrow> real) option \<Rightarrow> real \<Rightarrow> vec \<Rightarrow> vec \<Rightarrow> vec \<Rightarrow> real" where
  "flogpost floglike flogprior beta xlb xub X =
     (case flogprior of
        None \<Rightarrow> floglike X * beta - 2.0 * sum_list (map ln (vsub xub xlb))
      | Some prior \<Rightarrow> floglike X * beta + prior X)"

record chain_state =
  cur_X :: vec
  cur_pX :: real
  Accept :: real
  Chain :: mat
  LogPost :: vec

text \<open>One pass of the loop body of \<^verbatim>\<open>MChain\<close>, at index \<open>i\<close>.\<close>

definition MChain_step ::
  "(vec \<Rightarrow> real) \<Rightarrow> nat \<Rightarrow> vec \<Rightarrow> vec \<Rightarrow> mat \<Rightarrow> nat \<Rightarrow> chain_state \<times> world
     \<Rightarrow> chain_state \<times> world" where
  "MChain_step post D xlb xub cholcmat i sw =
     (let (s, w) = sw;
          (z, w1) = randn D w;
          Xt = vadd (np_dot_vm z cholcmat) (cur_X s);
          Xt = np_clip Xt xlb xub;
          pXt = post Xt;
          w2 = tick_post w1;
          r = (if cur_pX s > pXt then 1 else exp (0.5 * (cur_pX s - pXt)));
          (u, w3) = rand1 w2;
          s1 = (if u \<le> r then s\<lparr>cur_X := Xt, cur_pX := pXt, Accept := Accept s + 1\<rparr> else s)
      in (s1\<lparr>Chain := (Chain s1)[i := cur_X s1], LogPost := (LogPost s1)[i := cur_pX s1]\<rparr>, w3))"

definition MChain_init :: "(vec \<Rightarrow> real) \<Rightarrow> nat \<Rightarrow> nat \<Rightarrow> vec \<Rightarrow> chain_state" where
  "MChain_init post N D X =
     \<lparr>cur_X = X, cur_pX = post X, Accept = 0.0,
      Chain = replicate N (replicate D 0), LogPost = replicate N 0\<rparr>"

definition MChain_loop ::
  "(vec \<Rightarrow> real) \<Rightarrow> nat \<Rightarrow> vec \<Rightarrow> vec \<Rightarrow> mat \<Rightarrow> nat \<Rightarrow> nat \<Rightarrow> vec \<Rightarrow> world
     \<Rightarrow> chain_state \<times> world" where
  "MChain_loop post D xlb xub cholcmat N k X w =
     fold (MChain_step post D xlb xub cholcmat) [0..<k] (MChain_init post N D X, tick_post w)"

text \<open>
  \<^verbatim>\<open>MChain\<close>, with \<^verbatim>\<open>np.linalg.cholesky\<close> as the parameter \<open>chol\<close>: the factor is
  computed first, then the score of the start, then \<open>N\<close> passes of the loop;
  \<^verbatim>\<open>Accept /= N\<close> divides a Python float by the integer \<open>N\<close> and raises for \<open>N = 0\<close>.
\<close>

definition MChain_with ::
  "(mat \<Rightarrow> error + mat) \<Rightarrow> (vec \<Rightarrow> real) \<Rightarrow> (vec \<Rightarrow> real) option \<Rightarrow> real \<Rightarrow> nat \<Rightarrow> nat
     \<Rightarrow> vec \<Rightarrow> vec \<Rightarrow> vec \<Rightarrow> mat \<Rightarrow> world \<Rightarrow> (error + mat \<times> real \<times> vec) \<times> world" where
  "MChain_with chol floglike flogprior beta N D xlb xub X sigma w =
     (case chol sigma of
        Inl e \<Rightarrow> (Inl e, w)
      | Inr cholcmat \<Rightarrow>
          (let (s, w1) = MChain_loop (flogpost floglike flogprior beta xlb xub)
                           D xlb xub cholcmat N N X w
           in if N = 0 then (Inl ZeroDivisionError, w1)
              else (Inr (Chain s, Accept s / real N, LogPost s), w1)))"

text \<open>\<^verbatim>\<open>MChain\<close> with the exact factorisation.\<close>

definition MChain ::
  "(vec \<Rightarrow> real) \<Rightarrow> (vec \<Rightarrow> real) option \<Rightarrow> real \<Rightarrow> nat \<Rightarrow> nat \<Rightarrow> vec \<Rightarrow> vec \<Rightarrow> vec \<Rightarrow> mat
     \<Rightarrow> world \<Rightarrow> (error + mat \<times> real \<times> vec) \<times> world" where
  "MChain = MChain_with cholesky"




section \<open>The convergence diagnostic \<^verbatim>\<open>GRBfactor\<close>\<close>

text \<open>
  \<^verbatim>\<open>np.mean(X, axis = 0)\<close> and \<^verbatim>\<open>np.cov(X.T)\<close> for an array \<open>X\<close> of \<open>n\<close> rows
  (observations) and \<open>d\<close> columns (variables): the means of the columns, and for the
  columns \<open>a\<close> and \<open>b\<close> the sum over the rows of the products of their deviations from
  the means, divided by \<open>n - 1\<close>.
\<close>

definition col_mean :: "mat \<Rightarrow> nat \<Rightarrow> real" where
  "col_mean X j = sum_list (map (\<lambda>x. x ! j) X) / real (length X)"

definition np_mean0 :: "nat \<Rightarrow> mat \<Rightarrow> vec" where
  "np_mean0 d X = map (col_mean X) [0..<d]"

definition cov_entry :: "mat \<Rightarrow> nat \<Rightarrow> nat \<Rightarrow> real" where
  "cov_entry X a b =
     sum_list (map (\<lambda>x. (x ! a - col_mean X a) * (x ! b - col_mean X b)) X) /
       (real (length X) - 1)"

definition np_cov_T :: "nat \<Rightarrow> mat \<Rightarrow> mat" where
  "np_cov_T d X = map (\<lambda>a. map (cov_entry X a) [0..<d]) [0..<d]"

definition madd :: "mat \<Rightarrow> mat \<Rightarrow> mat" where
  "madd A B = map2 (map2 (+)) A B"

definition mscale_div :: "mat \<Rightarrow> real \<Rightarrow> mat" where
  "mscale_div A c = map (map (\<lambda>x. x / c)) A"

definition np_zeros2 :: "nat \<Rightarrow> nat \<Rightarrow> mat" where
  "np_zeros2 n d = replicate n (replicate d 0)"

text \<open>\<^verbatim>\<open>np.dot(A, B)\<close> for two matrices.\<close>

definition np_dot_mm :: "mat \<Rightarrow> mat \<Rightarrow> mat" where
  "np_dot_mm A B = map (\<lambda>row. np_dot_vm row B) A"

text \<open>
  The routines of \<^verbatim>\<open>np.linalg\<close> are taken as given: \<^verbatim>\<open>cholesky\<close> returns the factor
  or raises, \<^verbatim>\<open>inv\<close> the inverse or raises, \<^verbatim>\<open>eig\<close> the eigenvalues (complex in
  general) or raises.
\<close>

record linalg =
  np_cholesky :: "mat \<Rightarrow> error + mat"
  np_inv :: "mat \<Rightarrow> error + mat"
  np_eig :: "mat \<Rightarrow> error + complex list"

text \<open>
  The value \<^verbatim>\<open>GRBfactor\<close> returns: a real number when every eigenvalue is real and
  the radicand is not negative, \<^verbatim>\<open>nan\<close> when every eigenvalue is real and the radicand
  is negative, a complex number when \<^verbatim>\<open>eig\<close> returns a complex array.
\<close>

datatype scalar = Real real | Cplx complex | NaN

text \<open>\<^verbatim>\<open>np.max\<close> orders complex numbers by real part, then by imaginary part.\<close>

definition clt :: "complex \<Rightarrow> complex \<Rightarrow> bool" where
  "clt a b = (Re a < Re b \<or> (Re a = Re b \<and> Im a < Im b))"

definition np_max :: "complex list \<Rightarrow> complex" where
  "np_max zs = fold (\<lambda>x m. if clt m x then x else m) (tl zs) (hd zs)"

definition nchain_of :: "mat list \<Rightarrow> nat" where
  "nchain_of C = length C"

definition nmax_of :: "mat list \<Rightarrow> nat" where
  "nmax_of C = (case C of [] \<Rightarrow> 0 | c # _ \<Rightarrow> length c)"

definition ndim_of :: "mat list \<Rightarrow> nat" where
  "ndim_of C = (case C of [] \<Rightarrow> 0 | c # _ \<Rightarrow> (case c of [] \<Rightarrow> 0 | x # _ \<Rightarrow> length x))"

text \<open>The loop of \<^verbatim>\<open>GRBfactor\<close>: the chain means \<open>M\<close> and the sum \<open>V\<close> of the covariances.\<close>

definition GRB_step :: "mat list \<Rightarrow> nat \<Rightarrow> nat \<Rightarrow> mat \<times> mat \<Rightarrow> mat \<times> mat" where
  "GRB_step C ndim i MV =
     (let (M, V) = MV
      in (M[i := np_mean0 ndim (C ! i)], madd V (np_cov_T ndim (C ! i))))"

definition GRB_loop :: "mat list \<Rightarrow> mat \<times> mat" where
  "GRB_loop C =
     fold (GRB_step C (ndim_of C)) [0..<nchain_of C]
       (np_zeros2 (nchain_of C) (ndim_of C), np_zeros2 (ndim_of C) (ndim_of C))"

definition GRB_V1 :: "mat list \<Rightarrow> mat" where
  "GRB_V1 C = mscale_div (snd (GRB_loop C)) (real (nchain_of C))"

definition GRB_V2 :: "mat list \<Rightarrow> mat" where
  "GRB_V2 C = np_cov_T (ndim_of C) (fst (GRB_loop C))"

definition GRB_value :: "nat \<Rightarrow> nat \<Rightarrow> complex list \<Rightarrow> scalar" where
  "GRB_value nchain nmax evs =
     (let L = np_max evs;
          a = (real nmax - 1) / real nmax;
          b = (real nchain + 1) / real nchain
      in if \<forall>z \<in> set evs. Im z = 0
         then (if a + b * Re L < 0 then NaN else Real (sqrt (a + b * Re L)))
         else Cplx (csqrt (of_real a + of_real b * L)))"

text \<open>
  With no dimension the matrices are empty and the maximum of an empty array raises
  \<^verbatim>\<open>ValueError\<close>. Otherwise, with a single chain, a single sample per chain or none,
  \<^verbatim>\<open>np.cov\<close> and the division by \<open>nchain\<close> divide by zero and fill the matrices with
  \<^verbatim>\<open>nan\<close>, which \<^verbatim>\<open>eig\<close> refuses with \<^verbatim>\<open>LinAlgError\<close>. A list keeps no
  dimension for an array without chains or without samples: it is taken to have one.
\<close>

definition GRBfactor :: "linalg \<Rightarrow> mat list \<Rightarrow> error + scalar" where
  "GRBfactor la C =
     (let nchain = nchain_of C; nmax = nmax_of C; ndim = ndim_of C
      in if 1 \<le> nchain \<and> 1 \<le> nmax \<and> ndim = 0 then Inl ValueError
         else if nchain \<le> 1 \<or> nmax \<le> 1 then Inl LinAlgError
         else (case np_inv la (GRB_V1 C) of
                 Inl e \<Rightarrow> Inl e
               | Inr V1inv \<Rightarrow>
                   (case np_eig la (np_dot_mm V1inv (GRB_V2 C)) of
                      Inl e \<Rightarrow> Inl e
                    | Inr evs \<Rightarrow>
                        if evs = [] then Inl ValueError
                        else Inr (GRB_value nchain nmax evs))))"

section \<open>The orchestrator \<^verbatim>\<open>sampler\<close>\<close>

definition np_eye :: "nat \<Rightarrow> mat" where
  "np_eye D = map (\<lambda>i. map (\<lambda>j. if i = j then 1 else 0) [0..<D]) [0..<D]"

definition sigma_step :: "vec \<Rightarrow> vec \<Rightarrow> nat \<Rightarrow> mat \<Rightarrow> mat" where
  "sigma_step xlb xub i sigma = sigma[i := (sigma ! i)[i := sigma ! i ! i * ((xub ! i - xlb ! i) * 0.1)]]"

definition default_sigma :: "nat \<Rightarrow> vec \<Rightarrow> vec \<Rightarrow> mat" where
  "default_sigma D xlb xub = fold (sigma_step xlb xub) [0..<D] (np_eye D)"















section \<open>Predicates of the statements\<close>

text \<open>A point lies within the bounds, component by component.\<close>

definition in_bounds :: "vec \<Rightarrow> vec \<Rightarrow> vec \<Rightarrow> bool" where
  "in_bounds xlb xub x = (list_all2 (\<le>) xlb x \<and> list_all2 (\<le>) x xub)"


text \<open>
  After \<open>k\<close> passes: the current state and every recorded one lie within the bounds or
  are the start.
\<close>

definition bounded_or_start :: "vec \<Rightarrow> vec \<Rightarrow> vec \<Rightarrow> nat \<Rightarrow> chain_state \<Rightarrow> bool" where
  "bounded_or_start xlb xub X k s =
     (length (cur_X s) = length xlb \<and>
      (in_bounds xlb xub (cur_X s) \<or> cur_X s = X) \<and>
      (\<forall>i<k. in_bounds xlb xub (Chain s ! i) \<or> Chain s ! i = X))"

text \<open>The diagonal matrix with the entries \<open>d 0, \<dots>, d (D - 1)\<close>.\<close>

definition diag_mat :: "nat \<Rightarrow> (nat \<Rightarrow> real) \<Rightarrow> mat" where
  "diag_mat D d = map (\<lambda>i. map (\<lambda>j. if i = j then d i else 0) [0..<D]) [0..<D]"






text \<open>An array of \<open>M \<times> N \<times> D\<close> entries.\<close>

definition has_shape :: "nat \<Rightarrow> nat \<Rightarrow> nat \<Rightarrow> mat list \<Rightarrow> bool" where
  "has_shape M N D C =
     (length C = M \<and> list_all (\<lambda>c. length c = N \<and> list_all (\<lambda>x. length x = D) c) C)"

text \<open>
  \<open>Ai\<close> is the inverse of the \<open>d \<times> d\<close> matrix \<open>A\<close>.
\<close>

definition inverse_of :: "nat \<Rightarrow> mat \<Rightarrow> mat \<Rightarrow> bool" where
  "inverse_of d A Ai =
     (length Ai = d \<and> list_all (\<lambda>r. length r = d) Ai \<and>
      np_dot_mm A Ai = np_eye d \<and> np_dot_mm Ai A = np_eye d)"

text \<open>
  \<open>z\<close> is an eigenvalue of the real \<open>d \<times> d\<close> matrix \<open>A\<close>: some complex vector \<open>v\<close> that
  is not zero has \<open>A v = z v\<close>.
\<close>

definition eigenvalue :: "nat \<Rightarrow> mat \<Rightarrow> complex \<Rightarrow> bool" where
  "eigenvalue d A z =
     (\<exists>v. length v = d \<and> list_ex (\<lambda>x. x \<noteq> 0) v \<and>
          (\<forall>a<d. (\<Sum>b<d. complex_of_real (A ! a ! b) * v ! b) = z * v ! a))"

section \<open>Concrete inputs\<close>

text \<open>
  Evaluators, draws and a generator state on which the kernel is run below: a flat and a
  sloped likelihood, a zero prior, normal draws that are all \<open>1\<close>, uniform draws that are
  all \<open>1/2\<close>.
\<close>

definition flat_like :: "vec \<Rightarrow> real" where
  "flat_like x = 0"

definition slope_like :: "vec \<Rightarrow> real" where
  "slope_like x = - 2 * sum_list x"

definition zero_prior :: "vec \<Rightarrow> real" where
  "zero_prior x = 0"

definition unit_draws :: "nat \<Rightarrow> real" where
  "unit_draws n = 1"

definition half_draws :: "nat \<Rightarrow> real" where
  "half_draws n = 1 / 2"

definition demo_world :: world where
  "demo_world = \<lparr>randn_src = unit_draws, rand_src = half_draws, n_randn = 0, n_rand = 0, n_post = 0\<rparr>"

text \<open>Normal draws \<open>1, 0, 0, \<dots>\<close>, and a generator state that delivers them.\<close>

definition first_draw :: "nat \<Rightarrow> real" where
  "first_draw n = (if n = 0 then 1 else 0)"

definition first_world :: world where
  "first_world = \<lparr>randn_src = first_draw, rand_src = half_draws, n_randn = 0, n_rand = 0, n_post = 0\<rparr>"

text \<open>
  The routines in exact arithmetic: the exact factorisation, and the inverse and the
  eigenvalues on \<open>1 \<times> 1\<close> matrices, where they are elementary: the inverse of \<open>[[a]]\<close>
  is \<open>[[1 / a]]\<close> and raises for \<open>a = 0\<close>, the only eigenvalue of \<open>[[a]]\<close> is \<open>a\<close>.
\<close>

definition inv_1x1 :: "mat \<Rightarrow> error + mat" where
  "inv_1x1 A = (case A of [[a]] \<Rightarrow> if a = 0 then Inl LinAlgError else Inr [[1 / a]]
                | _ \<Rightarrow> Inl LinAlgError)"

definition eig_1x1 :: "mat \<Rightarrow> error + complex list" where
  "eig_1x1 A = (case A of [[a]] \<Rightarrow> Inr [complex_of_real a] | _ \<Rightarrow> Inl LinAlgError)"

definition linalg_1x1 :: linalg where
  "linalg_1x1 = \<lparr>np_cholesky = cholesky, np_inv = inv_1x1, np_eig = eig_1x1\<rparr>"


section \<open>Properties of the chain kernel\<close>

lemma MChain_loop_Suc:
  "MChain_loop post D xlb xub L N (Suc k) X w =
     MChain_step post D xlb xub L k (MChain_loop post D xlb xub L N k X w)"
  by (simp add: MChain_loop_def)

lemma MChain_loop_0:
  "MChain_loop post D xlb xub L N 0 X w = (MChain_init post N D X, tick_post w)"
  by (simp add: MChain_loop_def)

lemma length_chol_fold_entry:
  "length (fold (chol_entry A Ls i) [0..<k] []) = k"
  by (induction k) (simp_all add: chol_entry_def)

lemma chol_row_length:
  "chol_row A Ls i = Inr r \<Longrightarrow> i < length A \<Longrightarrow> length r = length A"
  by (auto simp: chol_row_def Let_def length_chol_fold_entry split: if_splits)

lemma chol_fold_shape:
  "k \<le> length A \<Longrightarrow> fold (chol_step A) [0..<k] (Inr []) = Inr L \<Longrightarrow>
     length L = k \<and> (\<forall>r \<in> set L. length r = length A)"
proof (induction k arbitrary: L)
  case 0
  then show ?case by simp
next
  case (Suc k)
  then show ?case
    by (auto simp: chol_step_def chol_row_length split: sum.splits)
qed

lemma cholesky_shape:
  "cholesky A = Inr L \<Longrightarrow> length L = length A \<and> (\<forall>r \<in> set L. length r = length A)"
  unfolding cholesky_def using chol_fold_shape[of "length A" A L] by simp

lemma length_np_dot_vm:
  "A \<noteq> [] \<Longrightarrow> length (np_dot_vm z A) = length (hd A)"
  by (cases A) (simp_all add: np_dot_vm_def)

lemma length_proposal:
  assumes "cholesky sigma = Inr L" "length sigma = D" "length X = D"
    "length xlb = D" "length xub = D"
  shows "length (np_clip (vadd (np_dot_vm z L) X) xlb xub) = D"
proof (cases "D = 0")
  case True
  with assms show ?thesis by (simp add: np_clip_def)
next
  case False
  from cholesky_shape[OF assms(1)] assms(2) False have "L \<noteq> []"
    by auto
  moreover from this cholesky_shape[OF assms(1)] assms(2) have "length (hd L) = D"
    using hd_in_set[of L] by auto
  ultimately have "L \<noteq> []" "length (hd L) = D" by auto
  with assms show ?thesis by (simp add: np_clip_def vadd_def length_np_dot_vm)
qed

lemma clip_in_bounds:
  assumes "list_all2 (\<le>) xlb xub" "length xlb \<le> length v"
  shows "in_bounds xlb xub (np_clip v xlb xub)"
  using assms
  unfolding in_bounds_def np_clip_def list_all2_conv_all_nth
  by (auto simp: min_def max_def)



lemma MChain_step_lengths:
  "length (Chain (fst (MChain_step post D xlb xub L i (s, w)))) = length (Chain s) \<and>
   length (LogPost (fst (MChain_step post D xlb xub L i (s, w)))) = length (LogPost s)"
  by (simp add: MChain_step_def Let_def split_def)

lemma MChain_loop_lengths:
  "length (Chain (fst (MChain_loop post D xlb xub L N k X w))) = N \<and>
   length (LogPost (fst (MChain_loop post D xlb xub L N k X w))) = N"
proof (induction k)
  case 0
  show ?case by (simp add: MChain_loop_0 MChain_init_def)
next
  case (Suc k)
  then show ?case
    using MChain_step_lengths[of post D xlb xub L k
        "fst (MChain_loop post D xlb xub L N k X w)" "snd (MChain_loop post D xlb xub L N k X w)"]
    by (simp add: MChain_loop_Suc)
qed



lemma MChain_with_Inr:
  assumes "MChain_with chol floglike flogprior beta N D xlb xub X sigma w =
             (Inr (C, a, LP), w')"
  obtains L where "chol sigma = Inr L" "0 < N"
    "C = Chain (fst (MChain_loop (flogpost floglike flogprior beta xlb xub) D xlb xub L N N X w))"
    "a = Accept (fst (MChain_loop (flogpost floglike flogprior beta xlb xub) D xlb xub L N N X w)) / real N"
    "LP = LogPost (fst (MChain_loop (flogpost floglike flogprior beta xlb xub) D xlb xub L N N X w))"
    "w' = snd (MChain_loop (flogpost floglike flogprior beta xlb xub) D xlb xub L N N X w)"
  using assms
  by (auto simp: MChain_with_def Let_def split_def split: sum.splits if_splits)

lemma MChain_Inr:
  assumes "MChain floglike flogprior beta N D xlb xub X sigma w = (Inr (C, a, LP), w')"
  obtains L where "cholesky sigma = Inr L" "0 < N"
    "C = Chain (fst (MChain_loop (flogpost floglike flogprior beta xlb xub) D xlb xub L N N X w))"
    "a = Accept (fst (MChain_loop (flogpost floglike flogprior beta xlb xub) D xlb xub L N N X w)) / real N"
    "LP = LogPost (fst (MChain_loop (flogpost floglike flogprior beta xlb xub) D xlb xub L N N X w))"
    "w' = snd (MChain_loop (flogpost floglike flogprior beta xlb xub) D xlb xub L N N X w)"
  using assms unfolding MChain_def by (rule MChain_with_Inr)

lemma cholesky_1: "0 < a \<Longrightarrow> cholesky [[a]] = Inr [[sqrt a]]"
  by (simp add: cholesky_def chol_step_def chol_row_def dot_def)

lemma cholesky_demo2: "cholesky [[4, 2], [2, 2]] = Inr [[2, 0], [1, 1]]"
  by (simp add: cholesky_def chol_step_def chol_row_def chol_entry_def dot_def upt_rec numeral_2_eq_2)

lemmas run_simps = MChain_def MChain_with_def MChain_loop_def MChain_step_def MChain_init_def Let_def
  randn_def rand1_def tick_post_def vadd_def np_dot_vm_def np_clip_def flogpost_def
  demo_world_def unit_draws_def half_draws_def upt_rec

lemma demo_flat_run:
  "MChain flat_like (Some zero_prior) 1 2 1 [0] [10] [5] [[1]] demo_world =
     (Inr ([[6], [7]], 1, [0, 0]),
      \<lparr>randn_src = unit_draws, rand_src = half_draws, n_randn = 2, n_rand = 2, n_post = 3\<rparr>)"
  by (simp add: run_simps cholesky_1 flat_like_def zero_prior_def numeral_2_eq_2)

lemma exp_neg4_less_half: "\<not> (1 / 2 \<le> exp (- (4::real)))"
proof -
  have "1 + (4::real) \<le> exp 4" by (rule exp_ge_add_one_self)
  then have "exp (- (4::real)) \<le> 1 / 5"
    by (simp add: exp_minus field_simps)
  then show ?thesis by simp
qed

lemma demo_reject_run:
  "MChain slope_like (Some zero_prior) 1 1 1 [0] [1] [5] [[1]] demo_world =
     (Inr ([[5]], 0, [-10]),
      \<lparr>randn_src = unit_draws, rand_src = half_draws, n_randn = 1, n_rand = 1, n_post = 2\<rparr>)"
  using exp_neg4_less_half
  by (simp add: run_simps cholesky_1 slope_like_def zero_prior_def)





lemma MChain_returns:
  assumes "cholesky sigma = Inr L" "0 < N"
  shows "\<exists>C a LP w'. MChain floglike flogprior beta N D xlb xub X sigma w = (Inr (C, a, LP), w')"
  using assms by (simp add: MChain_def MChain_with_def Let_def split_def)

lemma MChain_step_bounded:
  assumes "bounded_or_start xlb xub X k s" "k < length (Chain s)"
    "cholesky sigma = Inr L" "length sigma = D" "length xlb = D" "length xub = D"
    "list_all2 (\<le>) xlb xub"
  shows "bounded_or_start xlb xub X (Suc k) (fst (MChain_step post D xlb xub L k (s, w)))"
proof -
  let ?Xt = "np_clip (vadd (np_dot_vm (fst (randn D w)) L) (cur_X s)) xlb xub"
  from assms have len: "length (cur_X s) = D" by (simp add: bounded_or_start_def)
  have lt: "length ?Xt = D"
    by (rule length_proposal[OF assms(3,4) len assms(5,6)])
  have "length xlb \<le> length (vadd (np_dot_vm (fst (randn D w)) L) (cur_X s))"
    using lt assms(5,6) by (simp add: np_clip_def)
  from clip_in_bounds[OF assms(7) this] have ib: "in_bounds xlb xub ?Xt" .
  show ?thesis
    using assms(1,2,5) lt ib
    by (auto simp: bounded_or_start_def MChain_step_def Let_def split_def nth_list_update
        less_Suc_eq)
qed

lemma MChain_loop_bounded:
  assumes "cholesky sigma = Inr L" "length sigma = D" "length xlb = D" "length xub = D"
    "length X = D" "list_all2 (\<le>) xlb xub" "k \<le> N"
  shows "bounded_or_start xlb xub X k (fst (MChain_loop post D xlb xub L N k X w))"
  using assms(7)
proof (induction k)
  case 0
  show ?case using assms(3,5) by (simp add: MChain_loop_0 MChain_init_def bounded_or_start_def)
next
  case (Suc k)
  let ?sw = "MChain_loop post D xlb xub L N k X w"
  from Suc have "bounded_or_start xlb xub X k (fst ?sw)" by simp
  moreover from Suc.prems MChain_loop_lengths[of post D xlb xub L N k X w]
  have "k < length (Chain (fst ?sw))" by simp
  ultimately show ?case
    using MChain_step_bounded[of xlb xub X k "fst ?sw" sigma L D post "snd ?sw"] assms(1-4,6)
    by (simp add: MChain_loop_Suc)
qed

section \<open>The chain kernel: recorded scores, acceptance rate and bounds\<close>






text \<open>
  C4, as the code has it. With bounds \<open>xlb[i] \<le> xub[i]\<close>, every state a chain run records
  lies within the bounds or is the start the caller gave, which is recorded unclipped
  until a first proposal is accepted; so every recorded state lies within the bounds
  when the start does.
\<close>

theorem MChain_samples_in_bounds:
  assumes "MChain floglike flogprior beta N D xlb xub X sigma w = (Inr (C, a, LP), w')"
    and "length sigma = D" "length xlb = D" "length xub = D" "length X = D"
    and "list_all2 (\<le>) xlb xub"
  shows "length C = N \<and>
         (\<forall>i<N. in_bounds xlb xub (C ! i) \<or> C ! i = X) \<and>
         (in_bounds xlb xub X \<longrightarrow> (\<forall>i<N. in_bounds xlb xub (C ! i)))"
proof -
  let ?post = "flogpost floglike flogprior beta xlb xub"
  from assms(1) obtain L where L: "cholesky sigma = Inr L"
    and C: "C = Chain (fst (MChain_loop ?post D xlb xub L N N X w))"
    by (rule MChain_Inr)
  from MChain_loop_bounded[OF L assms(2-6), of N N ?post w]
  have "\<forall>i<N. in_bounds xlb xub (C ! i) \<or> C ! i = X"
    by (simp add: bounded_or_start_def C)
  moreover have "length C = N"
    using MChain_loop_lengths[of ?post D xlb xub L N N X w] by (simp add: C)
  ultimately show ?thesis by auto
qed

theorem MChain_samples_in_bounds_witness:
  "fst (MChain flat_like (Some zero_prior) 1 2 1 [0] [10] [5] [[1]] demo_world) =
     Inr ([[6], [7]], 1, [0, 0]) \<and>
   length [[1::real]] = 1 \<and> length [0::real] = 1 \<and> length [10::real] = 1 \<and>
   length [5::real] = 1 \<and> list_all2 (\<le>) [0::real] [10] \<and> in_bounds [0] [10] [5] \<and>
   in_bounds [0] [10] ([[6], [7]] ! 0) \<and> in_bounds [0] [10] ([[6], [7]] ! 1)"
  using MChain_samples_in_bounds[OF demo_flat_run] demo_flat_run
  by (simp add: in_bounds_def)

text \<open>
  C4 as stated fails: from the start \<open>[5]\<close>, outside the bounds \<open>[0, 1]\<close>, the only
  proposal is rejected and the state recorded at step \<open>0\<close> is the start.
\<close>

theorem MChain_records_start_out_of_bounds:
  "fst (MChain slope_like (Some zero_prior) 1 1 1 [0] [1] [5] [[1]] demo_world) =
     Inr ([[5]], 0, [- 10]) \<and>
   \<not> in_bounds [0] [1] ([[5]] ! 0)"
  using demo_reject_run by (simp add: in_bounds_def)

lemma sum_list_map2_nth:
  "length xs = n \<Longrightarrow> length ys = n \<Longrightarrow>
     sum_list (map g (map2 f xs ys)) = (\<Sum>i<n. g (f (xs ! i) (ys ! i)))"
proof -
  assume a: "length xs = n" "length ys = n"
  have "sum_list (map g (map2 f xs ys)) = (\<Sum>i = 0..<length (map g (map2 f xs ys)). map g (map2 f xs ys) ! i)"
    by (rule sum_list_sum_nth)
  also have "\<dots> = (\<Sum>i<n. g (f (xs ! i) (ys ! i)))"
    using a by (intro sum.cong) (auto simp: atLeast0LessThan)
  finally show ?thesis .
qed

section \<open>The score and the proposal\<close>

text \<open>
  C8. The posterior score the kernel compares is \<open>beta * loglike(x) + logprior(x)\<close> when
  a prior evaluator is given and \<open>beta * loglike(x) - 2 * \<Sum>i<D. ln (xub[i] - xlb[i])\<close>
  when none is; \<^verbatim>\<open>sampler\<close> passes \<open>beta = 1.0 / T\<close>.
\<close>

theorem flogpost_composition:
  assumes "length xlb = D" "length xub = D"
  shows "flogpost floglike (Some logprior) beta xlb xub x = beta * floglike x + logprior x \<and>
         flogpost floglike None beta xlb xub x =
           beta * floglike x - 2 * (\<Sum>i<D. ln (xub ! i - xlb ! i))"
  using sum_list_map2_nth[OF assms(2,1), of ln "(-)"]
  by (simp add: flogpost_def vsub_def mult.commute)

theorem flogpost_composition_witness:
  "length [0::real] = 1 \<and> length [10::real] = 1 \<and>
   flogpost slope_like (Some zero_prior) 3 [0] [10] [5] = 3 * slope_like [5] + zero_prior [5] \<and>
   flogpost slope_like None 3 [0] [10] [5] =
     3 * slope_like [5] - 2 * (\<Sum>i<1. ln ([10] ! i - [0] ! i))"
  using flogpost_composition[of "[0]" 1 "[10]" slope_like zero_prior 3 "[5]"] by simp

text \<open>
  C1. The candidate is \<open>X + z \<cdot> L\<close>, the row vector of draws times the factor, that is
  \<open>X + L\<^sup>T z\<close>, and not \<open>X + L z\<close>: for the covariance \<open>[[4, 2], [2, 2]]\<close>, with factor
  \<open>[[2, 0], [1, 1]]\<close>, and the draws \<open>z = [1, 0]\<close> the kernel proposes and records
  \<open>[2, 0]\<close>, where \<open>X + L z\<close> is \<open>[2, 1]\<close>.
\<close>

theorem proposal_multiplies_from_the_left:
  "cholesky [[4, 2], [2, 2]] = Inr [[2, 0], [1, 1]] \<and>
   fst (randn 2 first_world) = [1, 0] \<and>
   fst (MChain flat_like (Some zero_prior) 1 1 2 [- 10, - 10] [10, 10] [0, 0] [[4, 2], [2, 2]]
          first_world) = Inr ([[2, 0]], 1, [0]) \<and>
   np_clip (vadd (mat_vec [[2, 0], [1, 1]] [1, 0]) [0, 0]) [- 10, - 10] [10, 10] = [2, 1]"
  by (simp add: run_simps cholesky_demo2 flat_like_def zero_prior_def first_world_def
      first_draw_def mat_vec_def dot_def numeral_2_eq_2)

section \<open>The default covariance\<close>

lemma np_eye_shape: "length (np_eye D) = D \<and> (\<forall>i<D. length (np_eye D ! i) = D)"
  by (simp add: np_eye_def)

lemma sigma_fold_entries:
  "k \<le> D \<Longrightarrow>
   length (fold (sigma_step xlb xub) [0..<k] (np_eye D)) = D \<and>
   (\<forall>i<D. length (fold (sigma_step xlb xub) [0..<k] (np_eye D) ! i) = D \<and>
      (\<forall>j<D. fold (sigma_step xlb xub) [0..<k] (np_eye D) ! i ! j =
         (if i = j then (if i < k then (xub ! i - xlb ! i) * 0.1 else 1) else 0)))"
proof (induction k)
  case 0
  show ?case by (simp add: np_eye_def)
next
  case (Suc k)
  then have IH: "length (fold (sigma_step xlb xub) [0..<k] (np_eye D)) = D"
    "\<And>i. i < D \<Longrightarrow> length (fold (sigma_step xlb xub) [0..<k] (np_eye D) ! i) = D"
    "\<And>i j. i < D \<Longrightarrow> j < D \<Longrightarrow> fold (sigma_step xlb xub) [0..<k] (np_eye D) ! i ! j =
         (if i = j then (if i < k then (xub ! i - xlb ! i) * 0.1 else 1) else 0)"
    by simp_all
  from Suc.prems have k: "k < D" by simp
  define S where "S = fold (sigma_step xlb xub) [0..<k] (np_eye D)"
  have step: "fold (sigma_step xlb xub) [0..<Suc k] (np_eye D) =
      S[k := (S ! k)[k := S ! k ! k * ((xub ! k - xlb ! k) * 0.1)]]"
    by (simp add: S_def sigma_step_def)
  show ?case
    unfolding step using k IH[folded S_def]
    by (auto simp: nth_list_update less_Suc_eq)
qed

lemma default_sigma_entries:
  assumes "i < D" "j < D"
  shows "default_sigma D xlb xub ! i ! j = (if i = j then (xub ! i - xlb ! i) * 0.1 else 0)"
  using sigma_fold_entries[of D D xlb xub] assms by (simp add: default_sigma_def)

lemma default_sigma_shape:
  "length (default_sigma D xlb xub) = D"
  using sigma_fold_entries[of D D xlb xub] by (simp add: default_sigma_def)

lemma dot_replicate_0 [simp]: "dot (replicate n 0) ys = 0"
proof (induction n arbitrary: ys)
  case 0
  show ?case by (simp add: dot_def)
next
  case (Suc n)
  then show ?case by (cases ys) (simp_all add: dot_def)
qed

lemma chol_entries_zero:
  "j \<le> i \<Longrightarrow> (\<forall>c<i. A ! i ! c = 0) \<Longrightarrow> fold (chol_entry A Ls i) [0..<j] [] = replicate j 0"
proof (induction j)
  case 0
  show ?case by simp
next
  case (Suc j)
  then show ?case
    by (simp add: chol_entry_def replicate_append_same)
qed

lemma chol_row_diag:
  assumes "\<forall>c<i. A ! i ! c = 0" "0 < A ! i ! i"
  shows "chol_row A Ls i =
           Inr (replicate i 0 @ [sqrt (A ! i ! i)] @ replicate (length A - Suc i) 0)"
  using assms chol_entries_zero[of i i A Ls]
  by (simp add: chol_row_def Let_def)

lemma chol_fold_diag:
  assumes "\<forall>i<length A. (\<forall>c<i. A ! i ! c = 0) \<and> 0 < A ! i ! i" "k \<le> length A"
  shows "fold (chol_step A) [0..<k] (Inr []) =
           Inr (map (\<lambda>i. replicate i 0 @ [sqrt (A ! i ! i)] @ replicate (length A - Suc i) 0)
                  [0..<k])"
  using assms(2)
proof (induction k)
  case 0
  show ?case by simp
next
  case (Suc k)
  then have "k < length A" by simp
  with assms(1) have "\<forall>c<k. A ! k ! c = 0" "0 < A ! k ! k" by simp_all
  from chol_row_diag[OF this] Suc show ?case
    by (simp add: chol_step_def)
qed

lemma cholesky_diag:
  assumes "\<forall>i<length A. (\<forall>c<i. A ! i ! c = 0) \<and> 0 < A ! i ! i"
  shows "cholesky A =
           Inr (map (\<lambda>i. replicate i 0 @ [sqrt (A ! i ! i)] @ replicate (length A - Suc i) 0)
                  [0..<length A])"
  unfolding cholesky_def by (rule chol_fold_diag[OF assms]) simp

lemma diag_row: "i < D \<Longrightarrow>
   replicate i 0 @ x # replicate (D - Suc i) 0 = map (\<lambda>j. if i = j then x else (0::real)) [0..<D]"
  by (auto intro!: nth_equalityI simp: nth_append nth_Cons')

text \<open>
  C3, as the code has it. Without a covariance from the caller, the sampler uses the
  diagonal matrix whose entry \<open>i\<close> is \<open>0.1 * (xub[i] - xlb[i])\<close> itself; with
  \<open>xlb[i] < xub[i]\<close> its factor is diagonal with the entries
  \<open>sqrt (0.1 * (xub[i] - xlb[i]))\<close>, the standard deviations of the proposal.
\<close>

theorem default_sigma_is_range_tenth:
  assumes "length xlb = D" "length xub = D"
  shows "default_sigma D xlb xub = diag_mat D (\<lambda>i. (xub ! i - xlb ! i) * 0.1) \<and>
         ((\<forall>i<D. xlb ! i < xub ! i) \<longrightarrow>
            cholesky (default_sigma D xlb xub) =
              Inr (diag_mat D (\<lambda>i. sqrt ((xub ! i - xlb ! i) * 0.1))))"
proof -
  have eq: "default_sigma D xlb xub = diag_mat D (\<lambda>i. (xub ! i - xlb ! i) * 0.1)"
  proof (rule nth_equalityI)
    show "length (default_sigma D xlb xub) = length (diag_mat D (\<lambda>i. (xub ! i - xlb ! i) * 0.1))"
      by (simp add: default_sigma_shape diag_mat_def)
  next
    fix i assume "i < length (default_sigma D xlb xub)"
    then have i: "i < D" by (simp add: default_sigma_shape)
    show "default_sigma D xlb xub ! i = diag_mat D (\<lambda>i. (xub ! i - xlb ! i) * 0.1) ! i"
    proof (rule nth_equalityI)
      show "length (default_sigma D xlb xub ! i) = length (diag_mat D (\<lambda>i. (xub ! i - xlb ! i) * 0.1) ! i)"
        using i sigma_fold_entries[of D D xlb xub] by (simp add: default_sigma_def diag_mat_def)
    next
      fix j assume "j < length (default_sigma D xlb xub ! i)"
      then have "j < D"
        using i sigma_fold_entries[of D D xlb xub] by (simp add: default_sigma_def)
      with i show "default_sigma D xlb xub ! i ! j = diag_mat D (\<lambda>i. (xub ! i - xlb ! i) * 0.1) ! i ! j"
        by (simp add: default_sigma_entries diag_mat_def)
    qed
  qed
  moreover have "cholesky (default_sigma D xlb xub) =
      Inr (diag_mat D (\<lambda>i. sqrt ((xub ! i - xlb ! i) * 0.1)))"
    if pos: "\<forall>i<D. xlb ! i < xub ! i"
  proof -
    let ?A = "default_sigma D xlb xub"
    have "\<forall>i<length ?A. (\<forall>c<i. ?A ! i ! c = 0) \<and> 0 < ?A ! i ! i"
      using pos by (simp add: default_sigma_shape default_sigma_entries)
    from cholesky_diag[OF this] show ?thesis
      by (simp add: default_sigma_shape default_sigma_entries diag_mat_def diag_row
          cong: map_cong)
  qed
  ultimately show ?thesis by blast
qed

theorem default_sigma_is_range_tenth_witness:
  "length [0::real] = 1 \<and> length [20::real] = 1 \<and>
   default_sigma 1 [0] [20] = [[2]] \<and> [0::real] ! 0 < [20] ! 0 \<and>
   cholesky (default_sigma 1 [0] [20]) = Inr [[sqrt 2]]"
  using default_sigma_is_range_tenth[of "[0]" 1 "[20]"]
  by (simp add: diag_mat_def cholesky_1)

text \<open>
  C3 as stated fails: for the range \<open>[0, 20]\<close> the entry is \<open>2\<close>, not \<open>(0.1 * 20)\<^sup>2 = 4\<close>,
  and the factor is \<open>sqrt 2\<close>, not \<open>0.1 * 20 = 2\<close>.
\<close>

theorem default_sigma_is_not_squared:
  "default_sigma 1 [0] [20] ! 0 ! 0 = 2 \<and>
   (0.1 * ([20] ! 0 - [0] ! 0))\<^sup>2 = (4::real) \<and>
   cholesky (default_sigma 1 [0] [20]) = Inr [[sqrt 2]] \<and>
   sqrt 2 \<noteq> 0.1 * ([20] ! 0 - [0] ! 0)"
proof -
  have s: "default_sigma 1 [0] [20] = [[2]]"
    by (simp add: default_sigma_def sigma_step_def np_eye_def)
  have "sqrt 2 < 2"
    by (rule real_less_lsqrt) simp_all
  with s show ?thesis by (simp add: cholesky_1 power2_eq_square)
qed

section \<open>Properties of the orchestrator\<close>






















section \<open>The orchestrator: merged output and rejected covariance\<close>







lemma demo_GRB:
  "GRBfactor linalg_1x1 [[[3], [4]], [[4], [5]]] = Inr (Real (sqrt 2))"
  by (simp add: GRBfactor_def nchain_of_def nmax_of_def ndim_of_def GRB_V1_def GRB_V2_def
      GRB_loop_def GRB_step_def np_zeros2_def np_mean0_def np_cov_T_def cov_entry_def col_mean_def
      madd_def mscale_div_def dot_def linalg_1x1_def inv_1x1_def eig_1x1_def np_dot_mm_def
      np_dot_vm_def GRB_value_def np_max_def Let_def upt_rec numeral_2_eq_2)















section \<open>Properties of the diagnostic\<close>

lemma map2_same: "map2 h (map f xs) (map g xs) = map (\<lambda>x. h (f x) (g x)) xs"
  by (induction xs) simp_all

lemma madd_grid:
  "madd (map (\<lambda>a. map (F a) [0..<d]) [0..<d]) (map (\<lambda>a. map (G a) [0..<d]) [0..<d]) =
     map (\<lambda>a. map (\<lambda>b. F a b + G a b) [0..<d]) [0..<d]"
  by (simp add: madd_def map2_same)

lemma means_update:
  assumes "k < length C"
  shows "(map f (take k C) @ replicate (length C - k) z)[k := f (C ! k)] =
           map f (take (Suc k) C) @ replicate (length C - Suc k) z"
proof -
  from assms have "replicate (length C - k) z = z # replicate (length C - Suc k) z"
    by (simp add: Suc_diff_Suc flip: replicate_Suc)
  with assms show ?thesis
    by (simp add: list_update_append take_Suc_conv_app_nth)
qed

lemma GRB_fold:
  assumes "k \<le> length C"
  shows "fold (GRB_step C d) [0..<k] (np_zeros2 (length C) d, np_zeros2 d d) =
           (map (np_mean0 d) (take k C) @ replicate (length C - k) (replicate d 0),
            map (\<lambda>a. map (\<lambda>b. sum_list (map (\<lambda>c. cov_entry c a b) (take k C))) [0..<d]) [0..<d])"
  using assms
proof (induction k)
  case 0
  show ?case
    by (auto simp: np_zeros2_def intro!: nth_equalityI)
next
  case (Suc k)
  then have k: "k < length C" by simp
  have cov: "np_cov_T d (C ! k) = map (\<lambda>a. map (\<lambda>b. cov_entry (C ! k) a b) [0..<d]) [0..<d]"
    by (simp add: np_cov_T_def)
  from Suc k show ?case
    by (simp add: GRB_step_def means_update cov madd_grid take_Suc_conv_app_nth)
qed

lemma GRB_loop_eq:
  "GRB_loop C =
     (map (np_mean0 (ndim_of C)) C,
      map (\<lambda>a. map (\<lambda>b. sum_list (map (\<lambda>c. cov_entry c a b) C)) [0..<ndim_of C])
        [0..<ndim_of C])"
  using GRB_fold[of "length C" C "ndim_of C"]
  by (simp add: GRB_loop_def nchain_of_def)

lemma GRB_V1_eq:
  "GRB_V1 C =
     map (\<lambda>a. map (\<lambda>b. sum_list (map (\<lambda>c. cov_entry c a b) C) / real (length C))
                 [0..<ndim_of C]) [0..<ndim_of C]"
  by (simp add: GRB_V1_def GRB_loop_eq mscale_div_def nchain_of_def)

lemma GRB_V2_eq:
  "GRB_V2 C =
     map (\<lambda>a. map (cov_entry (map (np_mean0 (ndim_of C)) C) a) [0..<ndim_of C])
       [0..<ndim_of C]"
  by (simp add: GRB_V2_def GRB_loop_eq np_cov_T_def)

text \<open>Sums over a list do not depend on the order of the list.\<close>

lemma sum_list_map_mset:
  fixes f :: "'a \<Rightarrow> real"
  assumes "mset xs = mset ys"
  shows "sum_list (map f xs) = sum_list (map f ys)"
proof -
  have "sum_list (map f xs) = sum_mset (image_mset f (mset xs))"
    by (simp flip: sum_mset_sum_list)
  also have "\<dots> = sum_mset (image_mset f (mset ys))"
    by (simp add: assms)
  also have "\<dots> = sum_list (map f ys)"
    by (simp flip: sum_mset_sum_list)
  finally show ?thesis .
qed

lemma col_mean_mset: "mset X = mset Y \<Longrightarrow> col_mean X j = col_mean Y j"
  using sum_list_map_mset[of X Y "\<lambda>x. x ! j"] mset_eq_length[of X Y]
  by (simp add: col_mean_def)

lemma cov_entry_mset:
  assumes "mset X = mset Y"
  shows "cov_entry X a b = cov_entry Y a b"
proof -
  have "cov_entry X a b =
      sum_list (map (\<lambda>x. (x ! a - col_mean Y a) * (x ! b - col_mean Y b)) X) /
        (real (length Y) - 1)"
    using col_mean_mset[OF assms] mset_eq_length[OF assms] by (simp add: cov_entry_def)
  also have "\<dots> = cov_entry Y a b"
    using sum_list_map_mset[OF assms, of "\<lambda>x. (x ! a - col_mean Y a) * (x ! b - col_mean Y b)"]
    by (simp add: cov_entry_def)
  finally show ?thesis .
qed

lemma has_shape_dims:
  assumes "has_shape M N D C" "0 < M" "0 < N"
  shows "nchain_of C = M" "nmax_of C = N" "ndim_of C = D"
proof -
  from assms obtain c C' where C: "C = c # C'" by (cases C) (auto simp: has_shape_def)
  with assms have c: "length c = N" "list_all (\<lambda>x. length x = D) c"
    by (simp_all add: has_shape_def)
  with assms(3) obtain x c' where cc: "c = x # c'" by (cases c) auto
  with c have "length x = D" by simp
  with C cc c assms show "nchain_of C = M" "nmax_of C = N" "ndim_of C = D"
    by (simp_all add: nchain_of_def nmax_of_def ndim_of_def has_shape_def)
qed

lemma has_shape_mset:
  assumes "mset C' = mset C" "has_shape M N D C"
  shows "has_shape M N D C'"
proof -
  from assms(1) have "set C' = set C" by (rule mset_eq_setD)
  moreover from assms(1) have "length C' = length C" by (rule mset_eq_length)
  ultimately show ?thesis
    using assms(2) by (simp add: has_shape_def list_all_iff)
qed

lemma GRB_matrices_mset:
  assumes "mset C' = mset C" "ndim_of C' = ndim_of C"
  shows "GRB_V1 C' = GRB_V1 C" "GRB_V2 C' = GRB_V2 C"
proof -
  have len: "length C' = length C" using assms(1) by (rule mset_eq_length)
  show "GRB_V1 C' = GRB_V1 C"
    using sum_list_map_mset[OF assms(1)] by (simp add: GRB_V1_eq assms(2) len)
  have "mset (map (np_mean0 (ndim_of C)) C') = mset (map (np_mean0 (ndim_of C)) C)"
    using assms(1) by simp
  from cov_entry_mset[OF this] show "GRB_V2 C' = GRB_V2 C"
    by (simp add: GRB_V2_eq assms(2))
qed

lemma has_shape_no_rows:
  assumes "has_shape M 0 D C"
  shows "C = replicate M []"
proof -
  from assms have "\<forall>c\<in>set C. c = []" "length C = M"
    by (simp_all add: has_shape_def list_all_iff)
  then show ?thesis
    using replicate_length_same[of C "[]"] by simp
qed

text \<open>
  C9. Relabelling the chains of an ensemble leaves the matrices \<open>W\<close> and \<open>B_cov\<close>, and
  with them the value the diagnostic returns (or the exception it raises), as they were.
\<close>

theorem GRBfactor_permutation_invariant:
  assumes "mset C' = mset C" and "has_shape M N D C"
  shows "GRB_V1 C' = GRB_V1 C \<and> GRB_V2 C' = GRB_V2 C \<and> GRBfactor la C' = GRBfactor la C"
proof (cases "M = 0 \<or> N = 0")
  case True
  have "C' = C"
  proof (cases "M = 0")
    case True
    with assms show ?thesis by (simp add: has_shape_def)
  next
    case False
    with True have N: "N = 0" by simp
    from assms(2) N have "has_shape M 0 D C" by simp
    then have "C = replicate M []" by (rule has_shape_no_rows)
    moreover from has_shape_mset[OF assms(1,2)] N have "has_shape M 0 D C'" by simp
    then have "C' = replicate M []" by (rule has_shape_no_rows)
    ultimately show ?thesis by simp
  qed
  then show ?thesis by simp
next
  case False
  then have M: "0 < M" and N: "0 < N" by simp_all
  from has_shape_dims[OF assms(2) M N]
    has_shape_dims[OF has_shape_mset[OF assms(1,2)] M N]
  have dims: "nchain_of C' = nchain_of C" "nmax_of C' = nmax_of C" "ndim_of C' = ndim_of C"
    by simp_all
  note mats = GRB_matrices_mset[OF assms(1) dims(3)]
  have "GRBfactor la C' = GRBfactor la C"
    unfolding GRBfactor_def dims mats by (rule refl)
  with mats show ?thesis by simp
qed

theorem GRBfactor_permutation_invariant_witness:
  "mset [[[4], [5]], [[3], [4::real]]] = mset [[[3], [4]], [[4], [5]]] \<and>
   has_shape 2 2 1 [[[3], [4]], [[4], [5]]] \<and>
   GRBfactor linalg_1x1 [[[4], [5]], [[3], [4]]] = Inr (Real (sqrt 2)) \<and>
   GRBfactor linalg_1x1 [[[3], [4]], [[4], [5]]] = Inr (Real (sqrt 2))"
proof -
  have m: "mset [[[4], [5]], [[3], [4::real]]] = mset [[[3], [4]], [[4], [5]]]"
    by (simp add: add_mset_commute)
  have s: "has_shape 2 2 1 [[[3], [4]], [[4], [5]]]"
    by (simp add: has_shape_def)
  from GRBfactor_permutation_invariant[OF m s, of linalg_1x1] m s demo_GRB show ?thesis
    by simp
qed

section \<open>Eigenvalues of the product of the inverse of \<open>W\<close> and \<open>B_cov\<close>\<close>

text \<open>
  Both matrices are weighted sums of squares: \<open>W[a][b] = c * \<Sum>j. h j a * h j b\<close>. The
  quadratic form of such a matrix at a complex vector is a real number that is not
  negative, and the vector is in the kernel of the matrix when the form vanishes.
\<close>

lemma gram_qform:
  fixes h :: "'j \<Rightarrow> nat \<Rightarrow> real" and v :: "nat \<Rightarrow> complex"
  shows "(\<Sum>a<d. \<Sum>b<d. cnj (v a) * (complex_of_real (c * (\<Sum>j\<in>J. h j a * h j b)) * v b)) =
         complex_of_real (c * (\<Sum>j\<in>J. (cmod (\<Sum>a<d. complex_of_real (h j a) * v a))\<^sup>2))"
proof -
  let ?s = "\<lambda>j. \<Sum>a<d. complex_of_real (h j a) * v a"
  have "(\<Sum>a<d. \<Sum>b<d. cnj (v a) * (complex_of_real (c * (\<Sum>j\<in>J. h j a * h j b)) * v b)) =
        (\<Sum>a<d. \<Sum>b<d. \<Sum>j\<in>J. complex_of_real c *
            ((cnj (v a) * complex_of_real (h j a)) * (complex_of_real (h j b) * v b)))"
    by (simp add: sum_distrib_left sum_distrib_right algebra_simps)
  also have "\<dots> = (\<Sum>j\<in>J. \<Sum>a<d. \<Sum>b<d. complex_of_real c *
            ((cnj (v a) * complex_of_real (h j a)) * (complex_of_real (h j b) * v b)))"
  proof -
    have "(\<Sum>a<d. \<Sum>b<d. \<Sum>j\<in>J. complex_of_real c *
            ((cnj (v a) * complex_of_real (h j a)) * (complex_of_real (h j b) * v b))) =
          (\<Sum>a<d. \<Sum>j\<in>J. \<Sum>b<d. complex_of_real c *
            ((cnj (v a) * complex_of_real (h j a)) * (complex_of_real (h j b) * v b)))"
      by (intro sum.cong refl sum.swap)
    also have "\<dots> = (\<Sum>j\<in>J. \<Sum>a<d. \<Sum>b<d. complex_of_real c *
            ((cnj (v a) * complex_of_real (h j a)) * (complex_of_real (h j b) * v b)))"
      by (rule sum.swap)
    finally show ?thesis .
  qed
  also have "\<dots> = (\<Sum>j\<in>J. complex_of_real c * (cnj (?s j) * ?s j))"
  proof (intro sum.cong refl)
    fix j
    have "cnj (?s j) = (\<Sum>a<d. cnj (v a) * complex_of_real (h j a))"
      by (simp add: mult.commute)
    then have "cnj (?s j) * ?s j =
        (\<Sum>a<d. \<Sum>b<d. (cnj (v a) * complex_of_real (h j a)) * (complex_of_real (h j b) * v b))"
      by (simp add: sum_product)
    then show "(\<Sum>a<d. \<Sum>b<d. complex_of_real c *
            ((cnj (v a) * complex_of_real (h j a)) * (complex_of_real (h j b) * v b))) =
          complex_of_real c * (cnj (?s j) * ?s j)"
      by (simp add: sum_distrib_left)
  qed
  also have "\<dots> = (\<Sum>j\<in>J. complex_of_real (c * (cmod (?s j))\<^sup>2))"
  proof -
    have sq: "cnj s * s = complex_of_real ((cmod s)\<^sup>2)" for s
      using complex_norm_square[of s] by (simp only: mult.commute)
    show ?thesis
      by (intro sum.cong refl) (simp only: sq of_real_mult)
  qed
  also have "\<dots> = complex_of_real (c * (\<Sum>j\<in>J. (cmod (?s j))\<^sup>2))"
    by (simp add: sum_distrib_left)
  finally show ?thesis .
qed

lemma gram_kernel:
  fixes h :: "'j \<Rightarrow> nat \<Rightarrow> real" and v :: "nat \<Rightarrow> complex"
  assumes "finite J" "(\<Sum>j\<in>J. (cmod (\<Sum>a<d. complex_of_real (h j a) * v a))\<^sup>2) = 0"
  shows "(\<Sum>b<d. complex_of_real (c * (\<Sum>j\<in>J. h j a * h j b)) * v b) = 0"
proof -
  let ?s = "\<lambda>j. \<Sum>a<d. complex_of_real (h j a) * v a"
  from assms have z: "\<forall>j\<in>J. ?s j = 0"
    by (simp add: sum_nonneg_eq_0_iff)
  have "(\<Sum>b<d. complex_of_real (c * (\<Sum>j\<in>J. h j a * h j b)) * v b) =
        (\<Sum>b<d. \<Sum>j\<in>J. complex_of_real c * complex_of_real (h j a) * (complex_of_real (h j b) * v b))"
    by (simp add: sum_distrib_left sum_distrib_right algebra_simps)
  also have "\<dots> = (\<Sum>j\<in>J. \<Sum>b<d. complex_of_real c * complex_of_real (h j a) * (complex_of_real (h j b) * v b))"
    by (rule sum.swap)
  also have "\<dots> = (\<Sum>j\<in>J. complex_of_real c * complex_of_real (h j a) * ?s j)"
    by (simp add: sum_distrib_left)
  also have "\<dots> = 0"
    using z by simp
  finally show ?thesis .
qed

lemma pencil_transfer:
  fixes W B Wi :: "nat \<Rightarrow> nat \<Rightarrow> real" and v :: "nat \<Rightarrow> complex"
  assumes inv: "\<forall>a<d. \<forall>c<d. (\<Sum>e<d. W a e * Wi e c) = (if a = c then 1 else 0)"
    and eig: "\<forall>a<d. (\<Sum>b<d. complex_of_real (\<Sum>c<d. Wi a c * B c b) * v b) = z * v a"
    and e: "e < d"
  shows "(\<Sum>b<d. complex_of_real (B e b) * v b) = z * (\<Sum>a<d. complex_of_real (W e a) * v a)"
proof -
  have "z * (\<Sum>a<d. complex_of_real (W e a) * v a) = (\<Sum>a<d. complex_of_real (W e a) * (z * v a))"
    by (simp add: sum_distrib_left algebra_simps)
  also have "\<dots> = (\<Sum>a<d. complex_of_real (W e a) *
                      (\<Sum>b<d. complex_of_real (\<Sum>c<d. Wi a c * B c b) * v b))"
    using eig by simp
  also have "\<dots> = (\<Sum>a<d. \<Sum>b<d. \<Sum>c<d. complex_of_real (W e a * Wi a c) * (complex_of_real (B c b) * v b))"
    by (simp add: sum_distrib_left sum_distrib_right algebra_simps)
  also have "\<dots> = (\<Sum>c<d. \<Sum>b<d. \<Sum>a<d. complex_of_real (W e a * Wi a c) * (complex_of_real (B c b) * v b))"
  proof -
    have "(\<Sum>a<d. \<Sum>b<d. \<Sum>c<d. complex_of_real (W e a * Wi a c) * (complex_of_real (B c b) * v b)) =
          (\<Sum>a<d. \<Sum>c<d. \<Sum>b<d. complex_of_real (W e a * Wi a c) * (complex_of_real (B c b) * v b))"
      by (intro sum.cong refl sum.swap)
    also have "\<dots> = (\<Sum>c<d. \<Sum>a<d. \<Sum>b<d. complex_of_real (W e a * Wi a c) * (complex_of_real (B c b) * v b))"
      by (rule sum.swap)
    also have "\<dots> = (\<Sum>c<d. \<Sum>b<d. \<Sum>a<d. complex_of_real (W e a * Wi a c) * (complex_of_real (B c b) * v b))"
      by (intro sum.cong refl sum.swap)
    finally show ?thesis .
  qed
  also have "\<dots> = (\<Sum>c<d. \<Sum>b<d. complex_of_real (\<Sum>a<d. W e a * Wi a c) * (complex_of_real (B c b) * v b))"
    by (simp add: sum_distrib_right)
  also have "\<dots> = (\<Sum>c<d. \<Sum>b<d. (if e = c then 1 else 0) * (complex_of_real (B c b) * v b))"
    using inv e by (intro sum.cong refl) simp
  also have "\<dots> = (\<Sum>c<d. if e = c then (\<Sum>b<d. complex_of_real (B c b) * v b) else 0)"
    by (intro sum.cong refl) simp
  also have "\<dots> = (\<Sum>b<d. complex_of_real (B e b) * v b)"
    using e by (simp add: sum.delta)
  finally show ?thesis by simp
qed

lemma pencil_eigenvalue_nonneg:
  fixes W B Wi :: "nat \<Rightarrow> nat \<Rightarrow> real" and v :: "nat \<Rightarrow> complex"
    and hW :: "'j \<Rightarrow> nat \<Rightarrow> real" and hB :: "'k \<Rightarrow> nat \<Rightarrow> real"
  assumes W: "\<forall>a<d. \<forall>b<d. W a b = cW * (\<Sum>j\<in>J. hW j a * hW j b)"
    and cW: "0 < cW" and J: "finite J"
    and B: "\<forall>a<d. \<forall>b<d. B a b = cB * (\<Sum>k\<in>K. hB k a * hB k b)"
    and cB: "0 \<le> cB"
    and inv: "\<forall>a<d. \<forall>c<d. (\<Sum>e<d. W a e * Wi e c) = (if a = c then 1 else 0)"
    and eig: "\<forall>a<d. (\<Sum>b<d. complex_of_real (\<Sum>c<d. Wi a c * B c b) * v b) = z * v a"
    and nz: "\<exists>a<d. v a \<noteq> 0"
  shows "Im z = 0 \<and> 0 \<le> Re z"
proof -
  define Wv where "Wv e = (\<Sum>a<d. complex_of_real (W e a) * v a)" for e
  define Bv where "Bv e = (\<Sum>b<d. complex_of_real (B e b) * v b)" for e
  define om where "om = cW * (\<Sum>j\<in>J. (cmod (\<Sum>a<d. complex_of_real (hW j a) * v a))\<^sup>2)"
  define be where "be = cB * (\<Sum>k\<in>K. (cmod (\<Sum>a<d. complex_of_real (hB k a) * v a))\<^sup>2)"
  have om0: "0 \<le> om" unfolding om_def using cW by (intro mult_nonneg_nonneg sum_nonneg) simp_all
  have be0: "0 \<le> be" unfolding be_def using cB by (intro mult_nonneg_nonneg sum_nonneg) simp_all
  have qW: "(\<Sum>e<d. cnj (v e) * Wv e) = complex_of_real om"
  proof -
    have "(\<Sum>e<d. cnj (v e) * Wv e) =
          (\<Sum>a<d. \<Sum>b<d. cnj (v a) * (complex_of_real (W a b) * v b))"
      by (simp add: Wv_def sum_distrib_left)
    also have "\<dots> = (\<Sum>a<d. \<Sum>b<d. cnj (v a) *
                   (complex_of_real (cW * (\<Sum>j\<in>J. hW j a * hW j b)) * v b))"
      using W by (intro sum.cong refl) simp
    also have "\<dots> = complex_of_real om"
      unfolding om_def by (rule gram_qform)
    finally show ?thesis .
  qed
  have qB: "(\<Sum>e<d. cnj (v e) * Bv e) = complex_of_real be"
  proof -
    have "(\<Sum>e<d. cnj (v e) * Bv e) =
          (\<Sum>a<d. \<Sum>b<d. cnj (v a) * (complex_of_real (B a b) * v b))"
      by (simp add: Bv_def sum_distrib_left)
    also have "\<dots> = (\<Sum>a<d. \<Sum>b<d. cnj (v a) *
                   (complex_of_real (cB * (\<Sum>k\<in>K. hB k a * hB k b)) * v b))"
      using B by (intro sum.cong refl) simp
    also have "\<dots> = complex_of_real be"
      unfolding be_def by (rule gram_qform)
    finally show ?thesis .
  qed
  have tr: "Bv e = z * Wv e" if "e < d" for e
    unfolding Bv_def Wv_def by (rule pencil_transfer[OF inv eig that])
  have "(\<Sum>e<d. cnj (v e) * Bv e) = (\<Sum>e<d. cnj (v e) * (z * Wv e))"
    using tr by (intro sum.cong refl) simp
  also have "\<dots> = z * (\<Sum>e<d. cnj (v e) * Wv e)"
    by (simp add: sum_distrib_left algebra_simps)
  finally have rel: "complex_of_real be = z * complex_of_real om"
    by (simp add: qW qB)
  show ?thesis
  proof (cases "om = 0")
    case True
    with cW have "(\<Sum>j\<in>J. (cmod (\<Sum>a<d. complex_of_real (hW j a) * v a))\<^sup>2) = 0"
      by (simp add: om_def)
    from gram_kernel[OF J this, of cW]
    have "(\<Sum>b<d. complex_of_real (cW * (\<Sum>j\<in>J. hW j a * hW j b)) * v b) = 0" for a .
    then have Wv0: "Wv e = 0" if "e < d" for e
    proof -
      have "Wv e = (\<Sum>b<d. complex_of_real (cW * (\<Sum>j\<in>J. hW j e * hW j b)) * v b)"
        unfolding Wv_def using W that by (intro sum.cong refl) simp
      also have "\<dots> = 0" by fact
      finally show ?thesis .
    qed
    have Bv0: "Bv e = 0" if "e < d" for e
      using tr[OF that] Wv0[OF that] by simp
    from nz obtain a where a: "a < d" "v a \<noteq> 0" by blast
    have "z * v a = (\<Sum>b<d. complex_of_real (\<Sum>c<d. Wi a c * B c b) * v b)"
      using eig a(1) by simp
    also have "\<dots> = (\<Sum>b<d. \<Sum>c<d. complex_of_real (Wi a c) * (complex_of_real (B c b) * v b))"
      by (simp add: sum_distrib_right mult.assoc)
    also have "\<dots> = (\<Sum>c<d. \<Sum>b<d. complex_of_real (Wi a c) * (complex_of_real (B c b) * v b))"
      by (rule sum.swap)
    also have "\<dots> = (\<Sum>c<d. complex_of_real (Wi a c) * Bv c)"
      by (simp add: Bv_def sum_distrib_left)
    also have "\<dots> = 0"
      using Bv0 by simp
    finally have "z = 0" using a(2) by simp
    then show ?thesis by simp
  next
    case False
    with om0 have pos: "0 < om" by simp
    from rel have "z = complex_of_real be / complex_of_real om"
      using pos by (simp add: field_simps)
    then have "z = complex_of_real (be / om)" by simp
    then show ?thesis using be0 pos by simp
  qed
qed

lemma sum_list_map2_sum:
  fixes f :: "'a \<Rightarrow> 'b \<Rightarrow> real"
  assumes "length xs = n" "length ys = n"
  shows "sum_list (map2 f xs ys) = (\<Sum>i<n. f (xs ! i) (ys ! i))"
  using sum_list_map2_nth[OF assms, of "\<lambda>x. x" f] by simp

lemma sum_list_map_sum:
  fixes f :: "'a \<Rightarrow> real"
  shows "sum_list (map f xs) = (\<Sum>i<length xs. f (xs ! i))"
proof -
  have "sum_list (map f xs) = (\<Sum>i = 0..<length (map f xs). map f xs ! i)"
    by (rule sum_list_sum_nth)
  also have "\<dots> = (\<Sum>i<length xs. f (xs ! i))"
    by (intro sum.cong) (auto simp: atLeast0LessThan)
  finally show ?thesis .
qed

lemma np_dot_mm_entry:
  assumes "a < length A" "length (A ! a) = d" "length B = d" "list_all (\<lambda>r. length r = d) B"
    "c < d"
  shows "np_dot_mm A B ! a ! c = (\<Sum>e<d. A ! a ! e * B ! e ! c)"
proof -
  from assms(3,5) obtain r B' where B: "B = r # B'" by (cases B) auto
  with assms(4) have r: "length r = d" by simp
  have "np_dot_mm A B ! a ! c = sum_list (map2 (\<lambda>zi row. zi * row ! c) (A ! a) B)"
    using assms(1,5) r by (simp add: np_dot_mm_def np_dot_vm_def B)
  also have "\<dots> = (\<Sum>e<d. A ! a ! e * B ! e ! c)"
    by (rule sum_list_map2_sum[OF assms(2,3)])
  finally show ?thesis .
qed

lemma np_eye_entry: "a < d \<Longrightarrow> c < d \<Longrightarrow> np_eye d ! a ! c = (if a = c then 1 else 0)"
  by (simp add: np_eye_def)

text \<open>The maximum of a list of real eigenvalues.\<close>

lemma np_max_fold_real:
  assumes "\<forall>z\<in>set (m # xs). Im z = 0"
  shows "fold (\<lambda>x m. if clt m x then x else m) xs m \<in> set (m # xs) \<and>
         (\<forall>z\<in>set (m # xs). Re z \<le> Re (fold (\<lambda>x m. if clt m x then x else m) xs m))"
  using assms
proof (induction xs arbitrary: m)
  case Nil
  then show ?case by simp
next
  case (Cons x xs)
  let ?m = "if clt m x then x else m"
  from Cons.prems have im: "Im m = 0" "Im x = 0" "\<forall>z\<in>set xs. Im z = 0" by simp_all
  then have "\<forall>z\<in>set (?m # xs). Im z = 0" by simp
  from Cons.IH[OF this] have
    mem: "fold (\<lambda>x m. if clt m x then x else m) xs ?m \<in> set (?m # xs)"
    and ub: "\<forall>z\<in>set (?m # xs). Re z \<le> Re (fold (\<lambda>x m. if clt m x then x else m) xs ?m)"
    by simp_all
  from im have "Re m \<le> Re ?m" "Re x \<le> Re ?m" by (auto simp: clt_def)
  with ub have "Re m \<le> Re (fold (\<lambda>x m. if clt m x then x else m) xs ?m)"
    "Re x \<le> Re (fold (\<lambda>x m. if clt m x then x else m) xs ?m)"
    by (auto intro: order_trans)
  with mem ub show ?case by auto
qed

lemma np_max_real:
  assumes "zs \<noteq> []" "\<forall>z\<in>set zs. Im z = 0"
  shows "np_max zs \<in> set zs \<and> (\<forall>z\<in>set zs. Re z \<le> Re (np_max zs))"
proof -
  from assms(1) obtain m xs where zs: "zs = m # xs" by (cases zs) auto
  with np_max_fold_real[of m xs] assms(2) show ?thesis
    by (simp add: np_max_def)
qed

lemma has_shape_nth:
  assumes "has_shape M N D C" "i < M"
  shows "length (C ! i) = N"
  using assms by (simp add: has_shape_def list_all_length)

lemma GRB_V1_entry:
  assumes "has_shape M N D C" "0 < M" "0 < N" "a < D" "b < D"
  shows "GRB_V1 C ! a ! b = (\<Sum>i<M. cov_entry (C ! i) a b) / real M"
proof -
  from has_shape_dims[OF assms(1-3)] have d: "ndim_of C = D" "length C = M"
    by (simp_all add: nchain_of_def)
  show ?thesis
    using assms(4,5) by (simp add: GRB_V1_eq d sum_list_map_sum)
qed

lemma GRB_V2_entry:
  assumes "has_shape M N D C" "0 < M" "0 < N" "a < D" "b < D"
  shows "GRB_V2 C ! a ! b = cov_entry (map (np_mean0 D) C) a b"
proof -
  from has_shape_dims[OF assms(1-3)] have d: "ndim_of C = D" by simp
  show ?thesis
    using assms(4,5) by (simp add: GRB_V2_eq d)
qed

lemma GRB_matrices_shape:
  assumes "has_shape M N D C" "0 < M" "0 < N"
  shows "length (GRB_V1 C) = D" "list_all (\<lambda>r. length r = D) (GRB_V1 C)"
    "length (GRB_V2 C) = D" "list_all (\<lambda>r. length r = D) (GRB_V2 C)"
proof -
  from has_shape_dims[OF assms(1-3)] have d: "ndim_of C = D" by simp
  show "length (GRB_V1 C) = D" "list_all (\<lambda>r. length r = D) (GRB_V1 C)"
    "length (GRB_V2 C) = D" "list_all (\<lambda>r. length r = D) (GRB_V2 C)"
    by (simp_all add: GRB_V1_eq GRB_V2_eq d list_all_iff)
qed

lemma cov_entry_sum:
  "cov_entry X a b =
     (\<Sum>k<length X. (X ! k ! a - col_mean X a) * (X ! k ! b - col_mean X b)) /
       (real (length X) - 1)"
  by (simp add: cov_entry_def sum_list_map_sum)

lemma GRB_V1_gram:
  assumes "has_shape M N D C" "0 < M" "0 < N" "a < D" "b < D"
  shows "GRB_V1 C ! a ! b =
           (1 / (real M * (real N - 1))) *
           (\<Sum>p\<in>{..<M} \<times> {..<N}.
              (C ! fst p ! snd p ! a - col_mean (C ! fst p) a) *
              (C ! fst p ! snd p ! b - col_mean (C ! fst p) b))"
proof -
  let ?f = "\<lambda>i k. (C ! i ! k ! a - col_mean (C ! i) a) * (C ! i ! k ! b - col_mean (C ! i) b)"
  have "GRB_V1 C ! a ! b = (\<Sum>i<M. cov_entry (C ! i) a b) / real M"
    by (rule GRB_V1_entry[OF assms])
  also have "(\<Sum>i<M. cov_entry (C ! i) a b) = (\<Sum>i<M. (\<Sum>k<N. ?f i k) / (real N - 1))"
    using has_shape_nth[OF assms(1)] by (intro sum.cong refl) (simp add: cov_entry_sum)
  also have "\<dots> = (\<Sum>i<M. \<Sum>k<N. ?f i k) / (real N - 1)"
    by (simp add: sum_divide_distrib)
  also have "(\<Sum>i<M. \<Sum>k<N. ?f i k) = (\<Sum>p\<in>{..<M} \<times> {..<N}. ?f (fst p) (snd p))"
    by (simp add: sum.cartesian_product case_prod_unfold)
  finally show ?thesis by (simp add: field_simps)
qed

lemma GRB_V2_gram:
  assumes "has_shape M N D C" "0 < M" "0 < N" "a < D" "b < D"
  shows "GRB_V2 C ! a ! b =
           (1 / (real M - 1)) *
           (\<Sum>i\<in>{..<M}.
              (map (np_mean0 D) C ! i ! a - col_mean (map (np_mean0 D) C) a) *
              (map (np_mean0 D) C ! i ! b - col_mean (map (np_mean0 D) C) b))"
proof -
  from assms(1) have "length (map (np_mean0 D) C) = M" by (simp add: has_shape_def)
  then show ?thesis
    using GRB_V2_entry[OF assms] cov_entry_sum[of "map (np_mean0 D) C" a b]
    by simp
qed

text \<open>
  Every eigenvalue of the product of the inverse of \<open>W\<close> and \<open>B_cov\<close> is real and not
  negative.
\<close>

lemma GRB_eigenvalue_nonneg:
  assumes shape: "has_shape M N D C" and M: "2 \<le> M" and N: "2 \<le> N"
    and inv: "inverse_of D (GRB_V1 C) Wi"
    and ev: "eigenvalue D (np_dot_mm Wi (GRB_V2 C)) z"
  shows "Im z = 0 \<and> 0 \<le> Re z"
proof -
  from M N have M0: "0 < M" and N0: "0 < N" by simp_all
  note sh = GRB_matrices_shape[OF shape M0 N0]
  from inv have Wi: "length Wi = D" "list_all (\<lambda>r. length r = D) Wi"
    and prod: "np_dot_mm (GRB_V1 C) Wi = np_eye D"
    by (simp_all add: inverse_of_def)
  from ev obtain v where v: "length v = D" "list_ex (\<lambda>x. x \<noteq> 0) v"
    and eq: "\<forall>a<D. (\<Sum>b<D. complex_of_real (np_dot_mm Wi (GRB_V2 C) ! a ! b) * v ! b) = z * v ! a"
    by (auto simp: eigenvalue_def)
  let ?W = "\<lambda>a b. GRB_V1 C ! a ! b"
  let ?B = "\<lambda>a b. GRB_V2 C ! a ! b"
  let ?Wi = "\<lambda>a b. Wi ! a ! b"
  let ?hW = "\<lambda>p a. C ! fst p ! snd p ! a - col_mean (C ! fst p) a"
  let ?hB = "\<lambda>i a. map (np_mean0 D) C ! i ! a - col_mean (map (np_mean0 D) C) a"
  have W: "\<forall>a<D. \<forall>b<D. ?W a b =
      (1 / (real M * (real N - 1))) * (\<Sum>p\<in>{..<M} \<times> {..<N}. ?hW p a * ?hW p b)"
    using GRB_V1_gram[OF shape M0 N0] by blast
  have B: "\<forall>a<D. \<forall>b<D. ?B a b = (1 / (real M - 1)) * (\<Sum>i\<in>{..<M}. ?hB i a * ?hB i b)"
    using GRB_V2_gram[OF shape M0 N0] by blast
  have cW: "0 < 1 / (real M * (real N - 1))" using M N by simp
  have cB: "0 \<le> 1 / (real M - 1)" using M by simp
  have fin: "finite ({..<M} \<times> {..<N})" by simp
  have inv': "\<forall>a<D. \<forall>c<D. (\<Sum>e<D. ?W a e * ?Wi e c) = (if a = c then 1 else 0)"
  proof (intro allI impI)
    fix a c assume a: "a < D" and c: "c < D"
    from sh(1,2) a have "a < length (GRB_V1 C)" "length (GRB_V1 C ! a) = D"
      by (simp_all add: list_all_length)
    from np_dot_mm_entry[OF this Wi c] have
      "(\<Sum>e<D. ?W a e * ?Wi e c) = np_dot_mm (GRB_V1 C) Wi ! a ! c" by simp
    also have "\<dots> = (if a = c then 1 else 0)"
      using a c by (simp add: prod np_eye_entry)
    finally show "(\<Sum>e<D. ?W a e * ?Wi e c) = (if a = c then 1 else 0)" .
  qed
  have eig': "\<forall>a<D. (\<Sum>b<D. complex_of_real (\<Sum>c<D. ?Wi a c * ?B c b) * v ! b) = z * v ! a"
  proof (intro allI impI)
    fix a assume a: "a < D"
    from Wi a have la: "a < length Wi" "length (Wi ! a) = D"
      by (simp_all add: list_all_length)
    have "(\<Sum>b<D. complex_of_real (\<Sum>c<D. ?Wi a c * ?B c b) * v ! b) =
          (\<Sum>b<D. complex_of_real (np_dot_mm Wi (GRB_V2 C) ! a ! b) * v ! b)"
      using np_dot_mm_entry[OF la sh(3,4)] by (intro sum.cong refl) simp
    also have "\<dots> = z * v ! a" using eq a by simp
    finally show "(\<Sum>b<D. complex_of_real (\<Sum>c<D. ?Wi a c * ?B c b) * v ! b) = z * v ! a" .
  qed
  from v have nz: "\<exists>a<D. v ! a \<noteq> 0"
    by (auto simp: list_ex_iff in_set_conv_nth)
  from pencil_eigenvalue_nonneg[where W = ?W and B = ?B and Wi = ?Wi and hW = ?hW
      and hB = ?hB and v = "\<lambda>a. v ! a", OF W cW fin B cB inv' eig' nz]
  show ?thesis .
qed

text \<open>
  C2. For an ensemble of \<open>M \<ge> 2\<close> chains of \<open>N \<ge> 2\<close> samples in \<open>D \<ge> 1\<close> dimensions,
  \<open>W\<close> is the average of the \<open>M\<close> unbiased covariances of the chains and \<open>B_cov\<close> the
  unbiased covariance of the \<open>M\<close> chain means. When \<^verbatim>\<open>inv\<close> returns the inverse of \<open>W\<close>
  and \<^verbatim>\<open>eig\<close> the \<open>D\<close> eigenvalues of the product of that inverse and \<open>B_cov\<close>, the
  diagnostic returns the real number \<open>sqrt ((N - 1) / N + (M + 1) / M * lam)\<close>, which is
  not negative, where \<open>lam\<close> is the largest real eigenvalue of the product, itself not
  negative.
\<close>

theorem GRBfactor_value:
  assumes shape: "has_shape M N D C" and M: "2 \<le> M" and N: "2 \<le> N" and D: "1 \<le> D"
    and inv: "np_inv la (GRB_V1 C) = Inr Wi" "inverse_of D (GRB_V1 C) Wi"
    and eig: "np_eig la (np_dot_mm Wi (GRB_V2 C)) = Inr evs" "length evs = D"
      "\<forall>z. z \<in> set evs \<longleftrightarrow> eigenvalue D (np_dot_mm Wi (GRB_V2 C)) z"
  shows "(\<forall>a<D. \<forall>b<D.
            GRB_V1 C ! a ! b = (\<Sum>i<M. cov_entry (C ! i) a b) / real M \<and>
            GRB_V2 C ! a ! b = cov_entry (map (np_mean0 D) C) a b) \<and>
         (\<exists>lam g.
            GRBfactor la C = Inr (Real g) \<and>
            g = sqrt ((real N - 1) / real N + (real M + 1) / real M * lam) \<and> 0 \<le> g \<and>
            0 \<le> lam \<and> eigenvalue D (np_dot_mm Wi (GRB_V2 C)) (complex_of_real lam) \<and>
            (\<forall>mu. eigenvalue D (np_dot_mm Wi (GRB_V2 C)) (complex_of_real mu) \<longrightarrow> mu \<le> lam))"
proof -
  from M N have M0: "0 < M" and N0: "0 < N" by simp_all
  let ?A = "np_dot_mm Wi (GRB_V2 C)"
  have entries: "\<forall>a<D. \<forall>b<D.
            GRB_V1 C ! a ! b = (\<Sum>i<M. cov_entry (C ! i) a b) / real M \<and>
            GRB_V2 C ! a ! b = cov_entry (map (np_mean0 D) C) a b"
    using GRB_V1_entry[OF shape M0 N0] GRB_V2_entry[OF shape M0 N0] by blast
  have real_ev: "Im z = 0 \<and> 0 \<le> Re z" if "z \<in> set evs" for z
    using GRB_eigenvalue_nonneg[OF shape M N inv(2)] eig(3) that by blast
  from eig(2) D have ne: "evs \<noteq> []" by auto
  have im: "\<forall>z\<in>set evs. Im z = 0" using real_ev by blast
  from np_max_real[OF ne im] have
    mem: "np_max evs \<in> set evs" and ub: "\<forall>z\<in>set evs. Re z \<le> Re (np_max evs)"
    by simp_all
  define lam where "lam = Re (np_max evs)"
  from real_ev[OF mem] have L: "np_max evs = complex_of_real lam" and lam0: "0 \<le> lam"
    by (simp_all add: lam_def complex_eq_iff)
  have rad: "0 \<le> (real N - 1) / real N + (real M + 1) / real M * lam"
    using M0 N0 lam0 by (intro add_nonneg_nonneg mult_nonneg_nonneg divide_nonneg_nonneg) simp_all
  have val: "GRB_value M N evs =
      Real (sqrt ((real N - 1) / real N + (real M + 1) / real M * lam))"
    using im rad by (simp add: GRB_value_def Let_def lam_def)
  from has_shape_dims[OF shape M0 N0] have
    dims: "nchain_of C = M" "nmax_of C = N" "ndim_of C = D" by simp_all
  have grb: "GRBfactor la C =
      Inr (Real (sqrt ((real N - 1) / real N + (real M + 1) / real M * lam)))"
    using M N D inv(1) eig(1) ne by (simp add: GRBfactor_def dims Let_def val)
  have ev_lam: "eigenvalue D ?A (complex_of_real lam)"
    using mem eig(3) L by simp
  have largest: "mu \<le> lam" if "eigenvalue D ?A (complex_of_real mu)" for mu
  proof -
    from that eig(3) have "complex_of_real mu \<in> set evs" by simp
    with ub have "Re (complex_of_real mu) \<le> Re (np_max evs)" by blast
    then show ?thesis by (simp add: lam_def)
  qed
  from entries grb rad lam0 ev_lam largest show ?thesis
    by (intro conjI exI[of _ lam]
        exI[of _ "sqrt ((real N - 1) / real N + (real M + 1) / real M * lam)"])
      (simp_all)
qed

lemma demo_GRB_matrices:
  "GRB_V1 [[[3], [4]], [[4], [5]]] = [[1 / 2]]" "GRB_V2 [[[3], [4]], [[4], [5]]] = [[1 / 2]]"
  by (simp_all add: GRB_V1_eq GRB_V2_eq ndim_of_def np_mean0_def cov_entry_def col_mean_def)

lemma eigenvalue_1x1: "eigenvalue 1 [[a]] z \<longleftrightarrow> z = complex_of_real a"
proof
  assume "eigenvalue 1 [[a]] z"
  then obtain v where v: "length v = 1" "list_ex (\<lambda>x. x \<noteq> 0) v"
    and eq: "complex_of_real a * v ! 0 = z * v ! 0"
    by (auto simp: eigenvalue_def)
  from v obtain x where "v = [x]" "x \<noteq> 0"
    by (cases v) auto
  with eq show "z = complex_of_real a" by simp
next
  assume "z = complex_of_real a"
  then show "eigenvalue 1 [[a]] z"
    unfolding eigenvalue_def by (intro exI[of _ "[1]"]) simp
qed

theorem GRBfactor_value_witness:
  "has_shape 2 2 1 [[[3], [4]], [[4], [5]]] \<and> (2::nat) \<le> 2 \<and> (1::nat) \<le> 1 \<and>
   np_inv linalg_1x1 (GRB_V1 [[[3], [4]], [[4], [5]]]) = Inr [[2]] \<and>
   inverse_of 1 (GRB_V1 [[[3], [4]], [[4], [5]]]) [[2]] \<and>
   np_eig linalg_1x1 (np_dot_mm [[2]] (GRB_V2 [[[3], [4]], [[4], [5]]])) = Inr [1] \<and>
   length [1::complex] = 1 \<and>
   (\<forall>z. (z \<in> set [1]) = eigenvalue 1 (np_dot_mm [[2]] (GRB_V2 [[[3], [4]], [[4], [5]]])) z) \<and>
   GRB_V1 [[[3], [4]], [[4], [5]]] ! 0 ! 0 =
     (cov_entry [[3], [4]] 0 0 + cov_entry [[4], [5]] 0 0) / 2 \<and>
   (\<exists>lam. 0 \<le> lam \<and>
      GRBfactor linalg_1x1 [[[3], [4]], [[4], [5]]] =
        Inr (Real (sqrt ((2 - 1) / 2 + (2 + 1) / 2 * lam))))"
proof -
  let ?C = "[[[3], [4]], [[4], [5::real]]]"
  have s: "has_shape 2 2 1 ?C" by (simp add: has_shape_def)
  have i: "np_inv linalg_1x1 (GRB_V1 ?C) = Inr [[2]]"
    by (simp add: demo_GRB_matrices linalg_1x1_def inv_1x1_def)
  have io: "inverse_of 1 (GRB_V1 ?C) [[2]]"
    by (simp add: demo_GRB_matrices inverse_of_def np_dot_mm_def np_dot_vm_def np_eye_def)
  have p: "np_dot_mm [[2]] (GRB_V2 ?C) = [[1]]"
    by (simp add: demo_GRB_matrices np_dot_mm_def np_dot_vm_def)
  have e: "np_eig linalg_1x1 (np_dot_mm [[2]] (GRB_V2 ?C)) = Inr [1]"
    by (simp add: p linalg_1x1_def eig_1x1_def)
  have a: "\<forall>z. z \<in> set [1] \<longleftrightarrow> eigenvalue 1 (np_dot_mm [[2]] (GRB_V2 ?C)) z"
    using eigenvalue_1x1[of 1] by (simp add: p)
  from GRBfactor_value[OF s _ _ _ i io e _ a]
  have "GRB_V1 ?C ! 0 ! 0 = (\<Sum>i<2. cov_entry (?C ! i) 0 0) / real 2"
    and "\<exists>lam g. GRBfactor linalg_1x1 ?C = Inr (Real g) \<and>
            g = sqrt ((real 2 - 1) / real 2 + (real 2 + 1) / real 2 * lam) \<and> 0 \<le> g \<and>
            0 \<le> lam \<and> eigenvalue 1 (np_dot_mm [[2]] (GRB_V2 ?C)) (complex_of_real lam) \<and>
            (\<forall>mu. eigenvalue 1 (np_dot_mm [[2]] (GRB_V2 ?C)) (complex_of_real mu) \<longrightarrow> mu \<le> lam)"
    by simp_all
  then have "GRB_V1 ?C ! 0 ! 0 = (cov_entry [[3], [4]] 0 0 + cov_entry [[4], [5]] 0 0) / 2"
    and "\<exists>lam. 0 \<le> lam \<and> GRBfactor linalg_1x1 ?C =
            Inr (Real (sqrt ((2 - 1) / 2 + (2 + 1) / 2 * lam)))"
    by (auto simp: numeral_2_eq_2)
  with s i io e a show ?thesis by simp
qed

end
